theory Spec2Isabelle
  imports Main
begin

section \<open>Data model of app.py\<close>

text \<open>
  What \<^verbatim>\<open>json.load\<close> returns: \<^verbatim>\<open>None\<close>, a bool, a number, a string, a list or a dict
  with string keys. A dict is the list of its items, each key once. A number is kept as
  an integer: the program only tests a number for being zero.
\<close>

datatype json =
  JNull
  | JBool bool
  | JNumber int
  | JString string
  | JArray "json list"
  | JObject "(string \<times> json) list"

text \<open>
  The dataclasses of the quiz. Two field names of the source are command words of
  Isabelle and carry a suffix here: \<open>definition_txt\<close> is the field
  \<^verbatim>\<open>definition\<close> of \<^verbatim>\<open>CognitiveBias\<close>, \<open>value_opt\<close> is the field \<^verbatim>\<open>value\<close> of
  \<^verbatim>\<open>Answer\<close>. An \<^verbatim>\<open>Optional[bool]\<close> is a \<open>bool option\<close>, \<^verbatim>\<open>None\<close> being \<open>None\<close>.
  The four text fields of a bias hold whatever value the document has under their key:
  the dataclass does not check its annotations.
\<close>

record CognitiveBias =
  title :: json
  definition_txt :: json
  is_authentic :: bool
  reference :: json
  category :: json

record Answer =
  value_opt :: "bool option"
  is_correct :: "bool option"

record Quiz =
  biases :: "CognitiveBias list"
  answers :: "Answer list"
  current_index :: int

text \<open>
  What opening and decoding one candidate file gives: one of the two exceptions that
  \<^verbatim>\<open>_try_and_load\<close> catches, an exception of \<^verbatim>\<open>open\<close> or \<^verbatim>\<open>json.load\<close> that it does not
  catch (another \<^verbatim>\<open>OSError\<close> such as \<^verbatim>\<open>IsADirectoryError\<close> or \<^verbatim>\<open>PermissionError\<close>, or a
  \<^verbatim>\<open>UnicodeDecodeError\<close>), or the value that was decoded.
\<close>

datatype file_result =
  Raises_FileNotFoundError
  | Raises_JSONDecodeError
  | Raises_OSError
  | Raises_UnicodeDecodeError
  | Parsed json

text \<open>
  The world outside the program at the time of a call: the file system, and the
  permutation that \<^verbatim>\<open>random.shuffle\<close> applies to a list at that call.
\<close>

record env =
  files :: "string \<Rightarrow> file_result"
  shuffle :: "json list \<Rightarrow> json list"

text \<open>
  The exceptions that leave a function of the program: \<^verbatim>\<open>st.stop()\<close> raises
  \<open>StopException\<close>; reading a missing key of the session state, or calling \<^verbatim>\<open>.get\<close> on
  a value that is not a dict, raises \<open>AttributeError\<close>; indexing a list out of range
  raises \<open>IndexError\<close>; \<open>OSError\<close> and \<open>UnicodeDecodeError\<close> come from reading a file;
  \<open>TypeError\<close> and \<open>KeyError\<close> come from shuffling or slicing a value that is not a list.
\<close>

datatype error =
  StopException
  | AttributeError
  | IndexError
  | OSError
  | UnicodeDecodeError
  | TypeError
  | KeyError

text \<open>
  \<^verbatim>\<open>st.session_state\<close> with its three keys; \<open>None\<close> is a key that is not in the
  session state.
\<close>

record session =
  quiz :: "Quiz option"
  revealed :: "bool option"
  submitted :: "bool option"

definition empty_session :: session where
  "empty_session = \<lparr>quiz = None, revealed = None, submitted = None\<rparr>"

section \<open>Python values and list access\<close>

text \<open>The truth value of a decoded value, as \<^verbatim>\<open>if data\<close> and \<^verbatim>\<open>bool(...)\<close> take it.\<close>

fun truthy :: "json \<Rightarrow> bool" where
  "truthy JNull = False"
| "truthy (JBool b) = b"
| "truthy (JNumber n) = (n \<noteq> 0)"
| "truthy (JString s) = (s \<noteq> [])"
| "truthy (JArray xs) = (xs \<noteq> [])"
| "truthy (JObject kvs) = (kvs \<noteq> [])"

text \<open>\<^verbatim>\<open>d.get(key, default)\<close> on a dict.\<close>

definition dict_get :: "(string \<times> json) list \<Rightarrow> string \<Rightarrow> json \<Rightarrow> json" where
  "dict_get kvs key dflt = (case map_of kvs key of None \<Rightarrow> dflt | Some v \<Rightarrow> v)"

text \<open>
  \<^verbatim>\<open>xs[i]\<close>: a negative index counts from the end, and an index outside
  \<open>-len \<le> i < len\<close> raises IndexError (\<open>None\<close>). The result is the position read.
\<close>

definition py_index :: "'a list \<Rightarrow> int \<Rightarrow> nat option" where
  "py_index xs i =
     (let n = int (length xs); j = (if i < 0 then n + i else i)
      in if 0 \<le> j \<and> j < n then Some (nat j) else None)"

text \<open>\<^verbatim>\<open>xs[:limit]\<close>: a negative limit counts from the end.\<close>

definition py_slice_to :: "'a list \<Rightarrow> int \<Rightarrow> 'a list" where
  "py_slice_to xs limit =
     (if limit < 0 then take (nat (int (length xs) + limit)) xs else take (nat limit) xs)"

section \<open>Data loading\<close>

text \<open>
  \<^verbatim>\<open>CognitiveBias.from_dict\<close>: every field is read with \<^verbatim>\<open>data.get\<close>, which a value
  that is not a dict does not have.
\<close>

definition from_dict :: "json \<Rightarrow> error + CognitiveBias" where
  "from_dict data =
     (case data of
        JObject kvs \<Rightarrow>
          Inr \<lparr>title = dict_get kvs ''title'' (JString []),
               definition_txt = dict_get kvs ''definition'' (JString []),
               is_authentic = truthy (dict_get kvs ''is_authentic'' (JBool False)),
               reference = dict_get kvs ''reference'' (JString []),
               category = dict_get kvs ''category'' (JString [])\<rparr>
      | _ \<Rightarrow> Inl AttributeError)"

text \<open>
  \<^verbatim>\<open>_try_and_load\<close>: the two caught exceptions give the empty list, any other
  exception leaves the function, and \<^verbatim>\<open>.get("biases", [])\<close> is called on whatever was
  decoded. The message that \<^verbatim>\<open>st.error\<close> shows on a parse failure is output only and
  is not part of the state.
\<close>

definition try_and_load :: "env \<Rightarrow> string \<Rightarrow> error + json" where
  "try_and_load e fn =
     (case files e fn of
        Raises_FileNotFoundError \<Rightarrow> Inr (JArray [])
      | Raises_JSONDecodeError \<Rightarrow> Inr (JArray [])
      | Raises_OSError \<Rightarrow> Inl OSError
      | Raises_UnicodeDecodeError \<Rightarrow> Inl UnicodeDecodeError
      | Parsed doc \<Rightarrow>
          (case doc of
             JObject kvs \<Rightarrow> Inr (dict_get kvs ''biases'' (JArray []))
           | _ \<Rightarrow> Inl AttributeError))"

definition filenames :: "string list" where
  "filenames = [''./biases.json'', ''./data/biases.json'', ''./biases/data/biases.json'']"

text \<open>
  The loop of \<^verbatim>\<open>load_and_shuffle_data\<close> over the candidate files: \<open>data\<close> is the
  variable of the same name, overwritten by each candidate, and the loop leaves at the
  first candidate whose data is truthy. An exception of a candidate leaves the loop and
  the function.
\<close>

fun load_loop :: "env \<Rightarrow> string list \<Rightarrow> json \<Rightarrow> error + json" where
  "load_loop e [] data = Inr data"
| "load_loop e (fn # fns) data =
     (case try_and_load e fn of
        Inl err \<Rightarrow> Inl err
      | Inr data' \<Rightarrow> if truthy data' then Inr data' else load_loop e fns data')"

text \<open>
  \<^verbatim>\<open>random.shuffle(data)\<close> followed by \<^verbatim>\<open>data[:limit]\<close>. On a list the shuffle is the
  permutation of the world. The library's shuffle reads \<^verbatim>\<open>len(x)\<close> and, for a length of
  two or more, swaps \<^verbatim>\<open>x[i]\<close> and \<^verbatim>\<open>x[j]\<close>: a number or a bool has no length, a string of
  two or more characters cannot be assigned to, a dict of two or more items has no
  integer key; a string of one character passes and is sliced; a dict of one item passes
  and cannot be sliced (\<^verbatim>\<open>TypeError\<close>; \<^verbatim>\<open>KeyError\<close> from Python 3.12 on).
\<close>

definition shuffle_and_slice :: "env \<Rightarrow> json \<Rightarrow> int \<Rightarrow> error + json" where
  "shuffle_and_slice e data limit =
     (case data of
        JArray xs \<Rightarrow> Inr (JArray (py_slice_to (shuffle e xs) limit))
      | JString s \<Rightarrow>
          if length s \<le> 1 then Inr (JString (py_slice_to s limit)) else Inl TypeError
      | JObject kvs \<Rightarrow> if length kvs \<le> 1 then Inl TypeError else Inl KeyError
      | _ \<Rightarrow> Inl TypeError)"

definition load_and_shuffle_data :: "env \<Rightarrow> int \<Rightarrow> error + json" where
  "load_and_shuffle_data e limit =
     (case load_loop e filenames (JArray []) of
        Inl err \<Rightarrow> Inl err
      | Inr data \<Rightarrow>
          if \<not> truthy data then Inl StopException
          else shuffle_and_slice e data limit)"

definition new_answer :: Answer where
  "new_answer = \<lparr>value_opt = None, is_correct = None\<rparr>"

text \<open>
  The comprehension \<^verbatim>\<open>[CognitiveBias.from_dict(d) for d in data]\<close>: the first element
  that is not a dict raises. Iterating a string gives its characters, which are strings.
\<close>

fun from_dicts :: "json list \<Rightarrow> error + CognitiveBias list" where
  "from_dicts [] = Inr []"
| "from_dicts (d # ds) =
     (case from_dict d of
        Inl err \<Rightarrow> Inl err
      | Inr b \<Rightarrow> (case from_dicts ds of Inl err \<Rightarrow> Inl err | Inr bs \<Rightarrow> Inr (b # bs)))"

definition from_dict_each :: "json \<Rightarrow> error + CognitiveBias list" where
  "from_dict_each data =
     (case data of
        JArray ds \<Rightarrow> from_dicts ds
      | JString s \<Rightarrow> if s = [] then Inr [] else Inl AttributeError
      | JObject kvs \<Rightarrow> if kvs = [] then Inr [] else Inl AttributeError
      | _ \<Rightarrow> Inl TypeError)"

definition create_quiz :: "env \<Rightarrow> error + Quiz" where
  "create_quiz e =
     (case load_and_shuffle_data e 10 of
        Inl err \<Rightarrow> Inl err
      | Inr data \<Rightarrow>
          (case from_dict_each data of
             Inl err \<Rightarrow> Inl err
           | Inr bs \<Rightarrow>
               Inr \<lparr>biases = bs, answers = map (\<lambda>_. new_answer) bs, current_index = 0\<rparr>))"

section \<open>Session state and transitions\<close>

text \<open>
  Every transition returns the session state it leaves behind and the exception that
  left it, if any: an exception raised after an assignment does not undo the assignment.
  \<^verbatim>\<open>create_quiz\<close> builds one new \<^verbatim>\<open>Answer\<close> object for each bias and no function copies
  a reference to one, so no two positions of \<^verbatim>\<open>q.answers\<close> share an object: the list is
  a list of values here, and the two assignments to \<^verbatim>\<open>ans\<close> in \<^verbatim>\<open>set_answer\<close> are an
  update of the list at the position read.
\<close>

text \<open>
  \<^verbatim>\<open>get_state\<close> catches the \<open>StopException\<close> of \<^verbatim>\<open>create_quiz\<close> and nothing else: any
  other exception leaves \<^verbatim>\<open>get_state\<close> before it has assigned anything.
\<close>

definition get_state :: "env \<Rightarrow> session \<Rightarrow> session \<times> error option" where
  "get_state e s =
     (case (if quiz s = None
            then (case create_quiz e of
                    Inl err \<Rightarrow> if err = StopException then Inr s else Inl err
                  | Inr q \<Rightarrow> Inr (s\<lparr>quiz := Some q\<rparr>))
            else Inr s) of
        Inl err \<Rightarrow> (s, Some err)
      | Inr s1 \<Rightarrow>
          (let s2 = (if revealed s1 = None then s1\<lparr>revealed := Some False\<rparr> else s1);
               s3 = (if submitted s2 = None then s2\<lparr>submitted := Some False\<rparr> else s2)
           in (s3, None)))"

definition set_answer :: "env \<Rightarrow> bool \<Rightarrow> session \<Rightarrow> session \<times> error option" where
  "set_answer e v s =
     (case get_state e s of
        (state, Some err) \<Rightarrow> (state, Some err)
      | (state, None) \<Rightarrow>
          if submitted state = Some True then (state, None)
          else case quiz state of
            None \<Rightarrow> (state, Some AttributeError)
          | Some q \<Rightarrow>
              (let i = current_index q
               in if i \<ge> int (length (biases q)) then (state, None)
                  else case py_index (biases q) i of
                    None \<Rightarrow> (state, Some IndexError)
                  | Some pb \<Rightarrow>
                      (case py_index (answers q) i of
                         None \<Rightarrow> (state, Some IndexError)
                       | Some pa \<Rightarrow>
                           (let bias = biases q ! pb;
                                ans = (answers q ! pa)
                                        \<lparr>value_opt := Some v,
                                         is_correct := Some (v = is_authentic bias)\<rparr>;
                                q' = q\<lparr>answers := (answers q)[pa := ans]\<rparr>
                            in (state\<lparr>quiz := Some q', revealed := Some True\<rparr>, None)))))"

definition go_prev :: "env \<Rightarrow> session \<Rightarrow> session \<times> error option" where
  "go_prev e s =
     (case get_state e s of
        (state, Some err) \<Rightarrow> (state, Some err)
      | (state, None) \<Rightarrow>
          if submitted state = Some True then (state, None)
          else case quiz state of
            None \<Rightarrow> (state, Some AttributeError)
          | Some q \<Rightarrow>
              (let q' = (if current_index q > 0
                         then q\<lparr>current_index := current_index q - 1\<rparr> else q);
                   state' = state\<lparr>quiz := Some q'\<rparr>
               in case py_index (answers q') (current_index q') of
                    None \<Rightarrow> (state', Some IndexError)
                  | Some p \<Rightarrow>
                      (state'\<lparr>revealed := Some (value_opt (answers q' ! p) \<noteq> None)\<rparr>, None)))"

definition go_next :: "env \<Rightarrow> session \<Rightarrow> session \<times> error option" where
  "go_next e s =
     (case get_state e s of
        (state, Some err) \<Rightarrow> (state, Some err)
      | (state, None) \<Rightarrow>
          if submitted state = Some True then (state, None)
          else case quiz state of
            None \<Rightarrow> (state, Some AttributeError)
          | Some q \<Rightarrow>
              (let q' = (if current_index q < int (length (biases q)) - 1
                         then q\<lparr>current_index := current_index q + 1\<rparr> else q);
                   state' = state\<lparr>quiz := Some q'\<rparr>
               in case py_index (answers q') (current_index q') of
                    None \<Rightarrow> (state', Some IndexError)
                  | Some p \<Rightarrow>
                      (state'\<lparr>revealed := Some (value_opt (answers q' ! p) \<noteq> None)\<rparr>, None)))"

definition all_answered :: "Quiz \<Rightarrow> bool" where
  "all_answered q = list_all (\<lambda>a. value_opt a \<noteq> None) (answers q)"

definition restart_quiz :: "env \<Rightarrow> session \<Rightarrow> session \<times> error option" where
  "restart_quiz e s =
     (case create_quiz e of
        Inl err \<Rightarrow> (s, Some err)
      | Inr q \<Rightarrow> (s\<lparr>quiz := Some q, revealed := Some False, submitted := Some False\<rparr>, None))"

text \<open>
  The callback of the button \<^verbatim>\<open>View Results\<close>:
  \<^verbatim>\<open>lambda: setattr(state, "submitted", True)\<close>.
\<close>

definition submit :: "session \<Rightarrow> session" where
  "submit s = s\<lparr>submitted := Some True\<rparr>"

text \<open>
  The score that \<^verbatim>\<open>show_results\<close> computes and prints in its subheader, as the pair
  \<open>(correct, total)\<close>. The generator \<^verbatim>\<open>sum(1 for a in q.answers if a.is_correct)\<close>
  counts the answers whose \<open>is_correct\<close> is truthy, that is \<open>Some True\<close>. The function
  assigns to no field of the quiz or of the session, so it has no state to return.
\<close>

definition show_results :: "Quiz \<Rightarrow> int \<times> int" where
  "show_results q =
     (let total = int (length (biases q));
          correct = int (length (filter (\<lambda>a. is_correct a = Some True) (answers q)))
      in (correct, total))"

section \<open>The invariant of the answers, and the sessions the program can reach\<close>

text \<open>
  An answer agrees with its bias when \<open>is_correct\<close> is unset exactly if \<open>value_opt\<close> is
  unset, and otherwise records whether the value equals \<open>is_authentic\<close>.
\<close>

definition answer_consistent :: "CognitiveBias \<Rightarrow> Answer \<Rightarrow> bool" where
  "answer_consistent b a =
     (is_correct a = (case value_opt a of None \<Rightarrow> None | Some v \<Rightarrow> Some (v = is_authentic b)))"

definition session_inv :: "session \<Rightarrow> bool" where
  "session_inv s =
     (case quiz s of None \<Rightarrow> True
      | Some q \<Rightarrow> list_all2 answer_consistent (biases q) (answers q))"

text \<open>
  \<open>revealed\<close> is in step with the quiz when it tells whether the answer under the cursor
  has a value; without a quiz it is false or not yet set.
\<close>

definition revealed_in_step :: "session \<Rightarrow> bool" where
  "revealed_in_step s =
     (case quiz s of
        None \<Rightarrow> revealed s = Some False \<or> revealed s = None
      | Some q \<Rightarrow>
          (case py_index (answers q) (current_index q) of
             None \<Rightarrow> True
           | Some p \<Rightarrow> revealed s = Some (value_opt (answers q ! p) \<noteq> None)))"

text \<open>
  The cursor is in range: not negative, and below the number of biases unless there is
  none.
\<close>

definition cursor_inv :: "session \<Rightarrow> bool" where
  "cursor_inv s =
     (case quiz s of
        None \<Rightarrow> True
      | Some q \<Rightarrow> 0 \<le> current_index q \<and>
                  current_index q \<le> max 0 (int (length (biases q)) - 1))"

text \<open>
  Once a quiz is stored, both flags are stored too: every function that stores a quiz
  sets them or goes through \<^verbatim>\<open>get_state\<close>.
\<close>

definition flags_inv :: "session \<Rightarrow> bool" where
  "flags_inv s = (quiz s \<noteq> None \<longrightarrow> revealed s \<noteq> None \<and> submitted s \<noteq> None)"

text \<open>
  The session states that a run of the program passes through: the first access creates
  the state from an empty session, and every later event is a rerun of the page
  (\<^verbatim>\<open>get_state\<close>) or one of the callbacks, each in the world \<open>e\<close> of its own time.
  A call that raises leaves its state behind all the same.
\<close>

inductive reachable :: "session \<Rightarrow> bool" where
  first_access: "reachable (fst (get_state e empty_session))"
| after_rerun: "reachable s \<Longrightarrow> reachable (fst (get_state e s))"
| after_answer: "reachable s \<Longrightarrow> reachable (fst (set_answer e v s))"
| after_prev: "reachable s \<Longrightarrow> reachable (fst (go_prev e s))"
| after_next: "reachable s \<Longrightarrow> reachable (fst (go_next e s))"
| after_submit: "reachable s \<Longrightarrow> reachable (submit s)"
| after_restart: "reachable s \<Longrightarrow> reachable (fst (restart_quiz e s))"

section \<open>Example data\<close>

text \<open>
  Three records in the second candidate file, the first candidate being unparsable and
  the third missing; the shuffle of the example is the reversal. The biases of the quiz
  are authentic, fake, authentic.
\<close>

definition example_dicts :: "json list" where
  "example_dicts =
     [JObject [(''title'', JString ''Anchoring bias''), (''is_authentic'', JBool True)],
      JObject [(''title'', JString ''Purple hat effect'')],
      JObject [(''title'', JString ''Hindsight bias''), (''is_authentic'', JBool True)]]"

definition example_env :: env where
  "example_env =
     \<lparr>files = (\<lambda>fn. if fn = ''./data/biases.json''
                     then Parsed (JObject [(''biases'', JArray example_dicts)])
                     else if fn = ''./biases.json'' then Raises_JSONDecodeError
                     else Raises_FileNotFoundError),
      shuffle = rev\<rparr>"

definition example_biases :: "CognitiveBias list" where
  "example_biases =
     [\<lparr>title = JString ''Hindsight bias'', definition_txt = JString [], is_authentic = True,
        reference = JString [], category = JString []\<rparr>,
      \<lparr>title = JString ''Purple hat effect'', definition_txt = JString [],
        is_authentic = False, reference = JString [], category = JString []\<rparr>,
      \<lparr>title = JString ''Anchoring bias'', definition_txt = JString [], is_authentic = True,
        reference = JString [], category = JString []\<rparr>]"

definition example_quiz :: Quiz where
  "example_quiz =
     \<lparr>biases = example_biases,
      answers = [new_answer, new_answer, new_answer],
      current_index = 0\<rparr>"

definition example_session :: session where
  "example_session = \<lparr>quiz = Some example_quiz, revealed = Some False, submitted = Some False\<rparr>"

definition example_answered :: Quiz where
  "example_answered =
     example_quiz\<lparr>answers := [\<lparr>value_opt = Some True, is_correct = Some True\<rparr>,
                              new_answer, new_answer]\<rparr>"

text \<open>
  A world in which no candidate file yields a record: a document without the key, a
  document with an empty list, and a file that is not JSON.
\<close>

definition no_data_env :: env where
  "no_data_env =
     \<lparr>files = (\<lambda>fn. if fn = ''./biases.json'' then Parsed (JObject [])
                     else if fn = ''./data/biases.json''
                     then Parsed (JObject [(''biases'', JArray [])])
                     else if fn = ''./biases/data/biases.json'' then Raises_JSONDecodeError
                     else Raises_FileNotFoundError),
      shuffle = rev\<rparr>"


text \<open>
  The user answers authentic, authentic, fake, moving to the next bias after the first
  two answers; \<open>example_final\<close> is the quiz this run ends in, and
  \<open>example_all_correct\<close> a quiz in which every answer matches its bias.
\<close>

definition example_run :: session where
  "example_run =
     (let s1 = fst (set_answer example_env True example_session);
          s2 = fst (go_next example_env s1);
          s3 = fst (set_answer example_env True s2);
          s4 = fst (go_next example_env s3)
      in fst (set_answer example_env False s4))"

definition example_final :: Quiz where
  "example_final =
     example_quiz\<lparr>answers := [\<lparr>value_opt = Some True, is_correct = Some True\<rparr>,
                              \<lparr>value_opt = Some True, is_correct = Some False\<rparr>,
                              \<lparr>value_opt = Some False, is_correct = Some False\<rparr>],
                  current_index := 2\<rparr>"

definition example_all_correct :: Quiz where
  "example_all_correct =
     example_quiz\<lparr>answers := [\<lparr>value_opt = Some True, is_correct = Some True\<rparr>,
                              \<lparr>value_opt = Some False, is_correct = Some True\<rparr>,
                              \<lparr>value_opt = Some True, is_correct = Some True\<rparr>]\<rparr>"

section \<open>Basic facts\<close>

lemma py_index_in_range:
  "0 \<le> i \<Longrightarrow> i < int (length xs) \<Longrightarrow> py_index xs i = Some (nat i)"
  by (simp add: py_index_def)

lemma py_index_same_length:
  "length xs = length ys \<Longrightarrow> py_index xs i = py_index ys i"
  by (simp add: py_index_def)

lemma py_index_less: "py_index xs i = Some p \<Longrightarrow> p < length xs"
  by (auto simp: py_index_def Let_def split: if_splits)

lemma get_state_quiz_present:
  "quiz s = Some q \<Longrightarrow>
   get_state e s =
     (s\<lparr>revealed := Some (case revealed s of None \<Rightarrow> False | Some r \<Rightarrow> r),
        submitted := Some (case submitted s of None \<Rightarrow> False | Some b \<Rightarrow> b)\<rparr>, None)"
  by (cases "revealed s"; cases "submitted s") (simp_all add: get_state_def)

lemma get_state_ready:
  "quiz s = Some q \<Longrightarrow> revealed s = Some r \<Longrightarrow> submitted s = Some b \<Longrightarrow>
   get_state e s = (s, None)"
  by (simp add: get_state_quiz_present)

lemma get_state_keeps_quiz: "quiz s = Some q \<Longrightarrow> quiz (fst (get_state e s)) = Some q"
  by (simp add: get_state_quiz_present)

lemma get_state_raises: "get_state e s = (s', Some err) \<Longrightarrow> s' = s"
  by (auto simp: get_state_def Let_def split: sum.splits if_splits)

lemma get_state_submitted_iff:
  "submitted (fst (get_state e s)) = Some True \<longleftrightarrow> submitted s = Some True"
  by (auto simp: get_state_def Let_def split: sum.splits if_splits)

lemma get_state_quiz_cases:
  "quiz (fst (get_state e s)) = quiz s \<or>
   (quiz s = None \<and> (\<exists>q. create_quiz e = Inr q \<and> quiz (fst (get_state e s)) = Some q))"
  by (auto simp: get_state_def Let_def split: sum.splits if_splits)

lemma get_state_flags:
  "get_state e s = (s', None) \<Longrightarrow> revealed s' \<noteq> None \<and> submitted s' \<noteq> None"
  by (auto simp: get_state_def Let_def split: sum.splits if_splits)

subsection \<open>The transitions on a quiz whose cursor is in range\<close>

lemma set_answer_in_bounds:
  assumes "quiz s = Some q" and "submitted s \<noteq> Some True"
    and "0 \<le> current_index q" and "current_index q < int (length (biases q))"
    and "length (answers q) = length (biases q)"
  shows "set_answer e v s =
     ((fst (get_state e s))
        \<lparr>quiz := Some (q\<lparr>answers := (answers q)[nat (current_index q) :=
             (answers q ! nat (current_index q))
               \<lparr>value_opt := Some v,
                is_correct := Some (v = is_authentic (biases q ! nat (current_index q)))\<rparr>]\<rparr>),
         revealed := Some True\<rparr>, None)"
proof -
  obtain st where g: "get_state e s = (st, None)" using assms(1)
    by (simp add: get_state_quiz_present)
  then have q: "quiz st = Some q" using get_state_keeps_quiz [OF assms(1), of e] by simp
  have sub: "submitted st \<noteq> Some True"
    using assms(2) get_state_submitted_iff [of e s] g by simp
  have pb: "py_index (biases q) (current_index q) = Some (nat (current_index q))"
    using assms(3,4) by (rule py_index_in_range)
  have pa: "py_index (answers q) (current_index q) = Some (nat (current_index q))"
    using assms(3,4,5) by (simp add: py_index_in_range)
  show ?thesis
    using g q sub pb pa assms(4) by (simp add: set_answer_def Let_def)
qed

lemma go_prev_in_bounds:
  assumes "quiz s = Some q" and "submitted s \<noteq> Some True"
    and "0 \<le> current_index q" and "current_index q < int (length (answers q))"
  shows "go_prev e s =
     ((fst (get_state e s))
        \<lparr>quiz := Some (q\<lparr>current_index := max 0 (current_index q - 1)\<rparr>),
         revealed := Some (value_opt (answers q ! nat (max 0 (current_index q - 1))) \<noteq> None)\<rparr>,
      None)"
proof -
  obtain st where g: "get_state e s = (st, None)" using assms(1)
    by (simp add: get_state_quiz_present)
  then have q: "quiz st = Some q" using get_state_keeps_quiz [OF assms(1), of e] by simp
  have sub: "submitted st \<noteq> Some True"
    using assms(2) get_state_submitted_iff [of e s] g by simp
  show ?thesis
  proof (cases "current_index q > 0")
    case True
    then have "py_index (answers q) (current_index q - 1) = Some (nat (current_index q - 1))"
      using assms(4) by (simp add: py_index_in_range)
    moreover have "max 0 (current_index q - 1) = current_index q - 1"
      using True by simp
    ultimately show ?thesis using g q sub True by (simp add: go_prev_def Let_def)
  next
    case False
    then have z: "current_index q = 0" using assms(3) by simp
    then have "py_index (answers q) (current_index q) = Some 0"
      using assms(4) by (simp add: py_index_def)
    then show ?thesis using g q sub z by (simp add: go_prev_def Let_def)
  qed
qed

lemma go_next_in_bounds:
  assumes "quiz s = Some q" and "submitted s \<noteq> Some True"
    and "0 \<le> current_index q" and "current_index q < int (length (biases q))"
    and "length (answers q) = length (biases q)"
  shows "go_next e s =
     ((fst (get_state e s))
        \<lparr>quiz := Some (q\<lparr>current_index :=
                    min (int (length (biases q)) - 1) (current_index q + 1)\<rparr>),
         revealed := Some (value_opt (answers q !
                    nat (min (int (length (biases q)) - 1) (current_index q + 1))) \<noteq> None)\<rparr>,
      None)"
proof -
  obtain st where g: "get_state e s = (st, None)" using assms(1)
    by (simp add: get_state_quiz_present)
  then have q: "quiz st = Some q" using get_state_keeps_quiz [OF assms(1), of e] by simp
  have sub: "submitted st \<noteq> Some True"
    using assms(2) get_state_submitted_iff [of e s] g by simp
  show ?thesis
  proof (cases "current_index q < int (length (biases q)) - 1")
    case True
    then have "py_index (answers q) (current_index q + 1) = Some (nat (current_index q + 1))"
      using assms(3,5) by (simp add: py_index_in_range)
    moreover have "min (int (length (biases q)) - 1) (current_index q + 1) = current_index q + 1"
      using True by simp
    ultimately show ?thesis using g q sub True by (simp add: go_next_def Let_def)
  next
    case False
    then have l: "current_index q = int (length (biases q)) - 1" using assms(4) by simp
    have "py_index (answers q) (current_index q) = Some (nat (current_index q))"
      using assms(3,4,5) by (simp add: py_index_in_range)
    moreover have "min (int (length (biases q)) - 1) (current_index q + 1) = current_index q"
      using l by simp
    ultimately show ?thesis using g q sub False by (simp add: go_next_def Let_def)
  qed
qed

lemma submitted_transitions_noop:
  assumes "quiz s = Some q" and "revealed s = Some r" and "submitted s = Some True"
  shows "set_answer e v s = (s, None)" "go_prev e s = (s, None)" "go_next e s = (s, None)"
  using assms get_state_ready [OF assms, of e]
  by (simp_all add: set_answer_def go_prev_def go_next_def)

subsection \<open>Quiz creation\<close>








lemma create_quiz_fresh:
  assumes "create_quiz e = Inr q"
  shows "answers q = replicate (length (biases q)) new_answer" and "current_index q = 0"
  using assms
  by (auto simp: create_quiz_def map_replicate_const split: sum.splits)

lemma create_quiz_unanswered:
  assumes "create_quiz e = Inr q"
  shows "length (answers q) = length (biases q) \<and>
         (\<forall>a \<in> set (answers q). value_opt a = None \<and> is_correct a = None)"
  using create_quiz_fresh(1) [OF assms] by (auto simp: new_answer_def)

lemma get_state_empty_created:
  "create_quiz e = Inr q \<Longrightarrow>
   get_state e empty_session =
     (\<lparr>quiz = Some q, revealed = Some False, submitted = Some False\<rparr>, None)"
  by (simp add: get_state_def empty_session_def)



subsection \<open>The example, evaluated\<close>

lemma from_dicts_example: "from_dicts (rev example_dicts) = Inr example_biases"
  by (simp add: example_dicts_def example_biases_def from_dict_def dict_get_def)

lemma create_quiz_example: "create_quiz example_env = Inr example_quiz"
proof -
  have "py_slice_to (rev example_dicts) 10 = rev example_dicts"
    by (simp add: py_slice_to_def example_dicts_def)
  then show ?thesis
    by (simp add: create_quiz_def load_and_shuffle_data_def filenames_def try_and_load_def
        shuffle_and_slice_def from_dict_each_def example_env_def example_quiz_def
        from_dicts_example dict_get_def example_biases_def)
      (simp add: example_dicts_def)
qed

lemma create_quiz_no_data_env: "create_quiz no_data_env = Inl StopException"
  by (simp add: create_quiz_def load_and_shuffle_data_def filenames_def try_and_load_def
      no_data_env_def dict_get_def)

lemma get_state_example: "get_state example_env empty_session = (example_session, None)"
  by (simp add: get_state_empty_created [OF create_quiz_example] example_session_def)

lemma example_quiz_simps:
  "length (biases example_quiz) = 3" "length (answers example_quiz) = 3"
  "current_index example_quiz = 0"
  "map is_authentic (biases example_quiz) = [True, False, True]"
  by (simp_all add: example_quiz_def example_biases_def)

lemma example_session_simps:
  "quiz example_session = Some example_quiz" "revealed example_session = Some False"
  "submitted example_session = Some False"
  by (simp_all add: example_session_def)

lemma set_answer_example:
  "set_answer example_env True example_session =
     (example_session\<lparr>quiz := Some example_answered, revealed := Some True\<rparr>, None)"
  by (simp add: set_answer_def get_state_def example_session_def example_quiz_def
      example_answered_def example_biases_def py_index_def new_answer_def)

lemma example_run_eq:
  "example_run = \<lparr>quiz = Some example_final, revealed = Some True, submitted = Some False\<rparr>"
  by (simp add: example_run_def set_answer_def go_next_def get_state_def example_session_def
      example_quiz_def example_final_def example_biases_def py_index_def new_answer_def)

section \<open>Consistency of the answers in every reachable state\<close>

lemma fresh_answers_consistent:
  "list_all2 answer_consistent bs (map (\<lambda>_. new_answer) bs)"
  by (induction bs) (simp_all add: answer_consistent_def new_answer_def)

lemma create_quiz_consistent:
  "create_quiz e = Inr q \<Longrightarrow> list_all2 answer_consistent (biases q) (answers q)"
  by (auto simp: create_quiz_def fresh_answers_consistent split: sum.splits)

lemma session_inv_get_state: "session_inv s \<Longrightarrow> session_inv (fst (get_state e s))"
  using get_state_quiz_cases [of e s]
  by (auto simp: session_inv_def create_quiz_consistent split: option.splits)

lemma session_inv_set_answer:
  assumes "session_inv s"
  shows "session_inv (fst (set_answer e v s))"
proof -
  obtain st r where g: "get_state e s = (st, r)" by (cases "get_state e s")
  have inv: "session_inv st" using session_inv_get_state [OF assms, of e] g by simp
  show ?thesis
  proof (cases "quiz st")
    case None
    then show ?thesis using inv g
      by (auto simp: set_answer_def Let_def split: option.splits)
  next
    case (Some q)
    with inv have c: "list_all2 answer_consistent (biases q) (answers q)"
      by (simp add: session_inv_def)
    then have len: "length (biases q) = length (answers q)"
      by (rule list_all2_lengthD)
    have upd: "list_all2 answer_consistent (biases q)
        ((answers q)[p := (answers q ! p)\<lparr>value_opt := Some v,
            is_correct := Some (v = is_authentic (biases q ! p))\<rparr>])" for p
    proof -
      have "list_all2 answer_consistent ((biases q)[p := biases q ! p])
        ((answers q)[p := (answers q ! p)\<lparr>value_opt := Some v,
            is_correct := Some (v = is_authentic (biases q ! p))\<rparr>])"
        by (rule list_all2_update_cong [OF c]) (simp add: answer_consistent_def)
      then show ?thesis by simp
    qed
    show ?thesis
      using Some inv g upd py_index_same_length [OF len, of "current_index q"]
      by (auto simp: set_answer_def Let_def session_inv_def split: option.splits)
  qed
qed

lemma session_inv_go_prev: "session_inv s \<Longrightarrow> session_inv (fst (go_prev e s))"
  using session_inv_get_state [of s e]
  by (auto simp: go_prev_def Let_def session_inv_def split: option.splits prod.splits)

lemma session_inv_go_next: "session_inv s \<Longrightarrow> session_inv (fst (go_next e s))"
  using session_inv_get_state [of s e]
  by (auto simp: go_next_def Let_def session_inv_def split: option.splits prod.splits)

lemma session_inv_submit: "session_inv s \<Longrightarrow> session_inv (submit s)"
  by (simp add: submit_def session_inv_def)

lemma session_inv_restart: "session_inv s \<Longrightarrow> session_inv (fst (restart_quiz e s))"
  by (auto simp: restart_quiz_def session_inv_def create_quiz_consistent split: sum.splits)

lemma reachable_inv: "reachable s \<Longrightarrow> session_inv s"
proof (induction rule: reachable.induct)
  case (first_access e)
  have "session_inv empty_session" by (simp add: session_inv_def empty_session_def)
  then show ?case by (rule session_inv_get_state)
qed (simp_all add: session_inv_get_state session_inv_set_answer session_inv_go_prev
      session_inv_go_next session_inv_submit session_inv_restart)

text \<open>
  Claim C1. In every session state the program can reach, and at every index \<open>i\<close> of the
  answers, \<open>is_correct\<close> is set if and only if \<open>value_opt\<close> is set, and when set it
  equals \<open>(value = is_authentic)\<close> of the bias at the same index. The reachable states
  start at quiz creation and are closed under answering, both navigations, submission and
  restart, so the property holds after creation and every operation preserves it.
\<close>

theorem answers_consistent_reachable:
  assumes "reachable s" and "quiz s = Some q" and "i < length (answers q)"
  shows "length (answers q) = length (biases q) \<and>
         (is_correct (answers q ! i) = None \<longleftrightarrow> value_opt (answers q ! i) = None) \<and>
         (\<forall>v. value_opt (answers q ! i) = Some v \<longrightarrow>
              is_correct (answers q ! i) = Some (v = is_authentic (biases q ! i)))"
proof -
  from assms(1) have "session_inv s" by (rule reachable_inv)
  with assms(2) have c: "list_all2 answer_consistent (biases q) (answers q)"
    by (simp add: session_inv_def)
  then have len: "length (biases q) = length (answers q)" by (rule list_all2_lengthD)
  from c assms(3) len have "answer_consistent (biases q ! i) (answers q ! i)"
    by (simp add: list_all2_nthD2)
  then show ?thesis using len
    by (auto simp: answer_consistent_def split: option.splits)
qed

theorem answers_consistent_reachable_witness:
  "reachable (example_session\<lparr>quiz := Some example_answered, revealed := Some True\<rparr>) \<and>
   quiz (example_session\<lparr>quiz := Some example_answered, revealed := Some True\<rparr>)
     = Some example_answered \<and>
   0 < length (answers example_answered) \<and>
   length (answers example_answered) = length (biases example_answered) \<and>
   (is_correct (answers example_answered ! 0) = None \<longleftrightarrow>
      value_opt (answers example_answered ! 0) = None) \<and>
   value_opt (answers example_answered ! 0) = Some True \<and>
   is_correct (answers example_answered ! 0) =
     Some (True = is_authentic (biases example_answered ! 0))"
proof -
  let ?s = "example_session\<lparr>quiz := Some example_answered, revealed := Some True\<rparr>"
  have "reachable (fst (set_answer example_env True
      (fst (get_state example_env empty_session))))"
    by (rule reachable.after_answer) (rule reachable.first_access)
  then have r: "reachable ?s"
    by (simp add: get_state_example set_answer_example)
  have q: "quiz ?s = Some example_answered" by simp
  have i: "0 < length (answers example_answered)" by (simp add: example_answered_def)
  have v: "value_opt (answers example_answered ! 0) = Some True"
    by (simp add: example_answered_def)
  note c = answers_consistent_reachable [OF r q i]
  from c v have "is_correct (answers example_answered ! 0) =
     Some (True = is_authentic (biases example_answered ! 0))"
    by blast
  with c r q i v show ?thesis by blast
qed

section \<open>The cursor and the flags in every reachable state\<close>

text \<open>
  The transitions keep the cursor in range and, once a quiz is stored, both flags set;
  a shuffle that keeps the length of its list makes every created quiz non-empty. The
  quizzes that the claims below speak of, with \<open>0 \<le> current_index < N\<close>, as many
  answers as biases and both flags stored, are the ones the program reaches.
\<close>

lemma cursor_inv_get_state: "cursor_inv s \<Longrightarrow> cursor_inv (fst (get_state e s))"
  using get_state_quiz_cases [of e s] create_quiz_fresh(2) [of e]
  by (auto simp: cursor_inv_def split: option.splits)

lemma cursor_inv_set_answer: "cursor_inv s \<Longrightarrow> cursor_inv (fst (set_answer e v s))"
  using cursor_inv_get_state [of s e]
  by (auto simp: set_answer_def Let_def cursor_inv_def split: option.splits prod.splits)

lemma cursor_inv_go_prev: "cursor_inv s \<Longrightarrow> cursor_inv (fst (go_prev e s))"
  using cursor_inv_get_state [of s e]
  by (auto simp: go_prev_def Let_def cursor_inv_def split: option.splits prod.splits)

lemma cursor_inv_go_next: "cursor_inv s \<Longrightarrow> cursor_inv (fst (go_next e s))"
  using cursor_inv_get_state [of s e]
  by (auto simp: go_next_def Let_def cursor_inv_def split: option.splits prod.splits)

lemma cursor_inv_submit: "cursor_inv s \<Longrightarrow> cursor_inv (submit s)"
  by (simp add: submit_def cursor_inv_def)

lemma cursor_inv_restart: "cursor_inv s \<Longrightarrow> cursor_inv (fst (restart_quiz e s))"
  using create_quiz_fresh(2) [of e]
  by (auto simp: restart_quiz_def cursor_inv_def split: sum.splits)

lemma reachable_cursor_inv: "reachable s \<Longrightarrow> cursor_inv s"
proof (induction rule: reachable.induct)
  case (first_access e)
  have "cursor_inv empty_session" by (simp add: cursor_inv_def empty_session_def)
  then show ?case by (rule cursor_inv_get_state)
qed (simp_all add: cursor_inv_get_state cursor_inv_set_answer cursor_inv_go_prev
      cursor_inv_go_next cursor_inv_submit cursor_inv_restart)

lemma reachable_cursor_in_range:
  assumes "reachable s" and "quiz s = Some q" and "biases q \<noteq> []"
  shows "0 \<le> current_index q \<and> current_index q < int (length (biases q)) \<and>
         length (answers q) = length (biases q)"
proof -
  from assms(1) have "cursor_inv s" by (rule reachable_cursor_inv)
  with assms(2,3) have "0 \<le> current_index q \<and> current_index q < int (length (biases q))"
    by (auto simp: cursor_inv_def max_def split: if_splits)
  moreover from assms(1) have "session_inv s" by (rule reachable_inv)
  with assms(2) have "length (answers q) = length (biases q)"
    by (auto simp: session_inv_def dest: list_all2_lengthD)
  ultimately show ?thesis by simp
qed

lemma flags_inv_get_state:
  assumes "flags_inv s"
  shows "flags_inv (fst (get_state e s))"
proof (cases "get_state e s")
  case (Pair st r)
  show ?thesis
  proof (cases r)
    case None
    with Pair get_state_flags [of e s st] show ?thesis by (simp add: flags_inv_def)
  next
    case (Some err)
    with Pair get_state_raises [of e s st err] assms show ?thesis by simp
  qed
qed

lemma flags_inv_set_answer: "flags_inv s \<Longrightarrow> flags_inv (fst (set_answer e v s))"
  using flags_inv_get_state [of s e]
  by (auto simp: set_answer_def Let_def flags_inv_def split: option.splits prod.splits)

lemma flags_inv_go_prev: "flags_inv s \<Longrightarrow> flags_inv (fst (go_prev e s))"
  using flags_inv_get_state [of s e]
  by (auto simp: go_prev_def Let_def flags_inv_def split: option.splits prod.splits)

lemma flags_inv_go_next: "flags_inv s \<Longrightarrow> flags_inv (fst (go_next e s))"
  using flags_inv_get_state [of s e]
  by (auto simp: go_next_def Let_def flags_inv_def split: option.splits prod.splits)

lemma flags_inv_submit: "flags_inv s \<Longrightarrow> flags_inv (submit s)"
  by (simp add: submit_def flags_inv_def)

lemma flags_inv_restart: "flags_inv s \<Longrightarrow> flags_inv (fst (restart_quiz e s))"
  by (auto simp: restart_quiz_def flags_inv_def split: sum.splits)

lemma reachable_flags_inv: "reachable s \<Longrightarrow> flags_inv s"
proof (induction rule: reachable.induct)
  case (first_access e)
  have "flags_inv empty_session" by (simp add: flags_inv_def empty_session_def)
  then show ?case by (rule flags_inv_get_state)
qed (simp_all add: flags_inv_get_state flags_inv_set_answer flags_inv_go_prev
      flags_inv_go_next flags_inv_submit flags_inv_restart)

lemma reachable_flags_set:
  assumes "reachable s" and "quiz s = Some q"
  shows "\<exists>r b. revealed s = Some r \<and> submitted s = Some b"
  using reachable_flags_inv [OF assms(1)] assms(2) by (auto simp: flags_inv_def)

lemma from_dicts_length: "from_dicts ds = Inr bs \<Longrightarrow> length bs = length ds"
  by (induction ds arbitrary: bs) (auto split: sum.splits)

lemma create_quiz_nonempty:
  assumes "create_quiz e = Inr q"
    and "\<And>xs. length (shuffle e xs) = length xs"
  shows "biases q \<noteq> []"
proof -
  from assms(1) obtain data sliced
    where l: "load_loop e filenames (JArray []) = Inr data" and t: "truthy data"
      and s: "shuffle_and_slice e data 10 = Inr sliced"
      and f: "from_dict_each sliced = Inr (biases q)"
    by (auto simp: create_quiz_def load_and_shuffle_data_def split: sum.splits if_splits)
  show ?thesis
  proof (cases data)
    case (JArray xs)
    with t have "xs \<noteq> []" by simp
    with assms(2) [of xs] have "py_slice_to (shuffle e xs) 10 \<noteq> []"
      by (auto simp: py_slice_to_def)
    moreover from s JArray have "sliced = JArray (py_slice_to (shuffle e xs) 10)"
      by (simp add: shuffle_and_slice_def)
    ultimately show ?thesis using f from_dicts_length [of "py_slice_to (shuffle e xs) 10" "biases q"]
      by (auto simp: from_dict_each_def)
  next
    case (JString str)
    with t s f show ?thesis
      by (auto simp: shuffle_and_slice_def from_dict_each_def py_slice_to_def
          split: if_splits)
  qed (use s f t in \<open>auto simp: shuffle_and_slice_def from_dict_each_def split: if_splits\<close>)
qed

section \<open>Answering\<close>

text \<open>
  Claim C2. On an unsubmitted quiz whose cursor is in bounds, \<^verbatim>\<open>set_answer(v)\<close> returns
  without an exception, stores \<open>v\<close> as the value of the current answer and
  \<open>(v = is_authentic)\<close> of the current bias as its \<open>is_correct\<close>, and sets \<open>revealed\<close>;
  a second call with any \<open>w\<close> on the state so reached overwrites both fields with those
  of \<open>w\<close> and leaves \<open>revealed\<close> true.
\<close>

theorem set_answer_last_write_wins:
  assumes "quiz s = Some q" and "submitted s \<noteq> Some True"
    and "0 \<le> current_index q" and "current_index q < int (length (biases q))"
    and "length (answers q) = length (biases q)"
  shows "\<exists>s1 q1 s2 q2.
     set_answer e v s = (s1, None) \<and> quiz s1 = Some q1 \<and> revealed s1 = Some True \<and>
     value_opt (answers q1 ! nat (current_index q)) = Some v \<and>
     is_correct (answers q1 ! nat (current_index q)) =
       Some (v = is_authentic (biases q ! nat (current_index q))) \<and>
     set_answer e' w s1 = (s2, None) \<and> quiz s2 = Some q2 \<and> revealed s2 = Some True \<and>
     value_opt (answers q2 ! nat (current_index q)) = Some w \<and>
     is_correct (answers q2 ! nat (current_index q)) =
       Some (w = is_authentic (biases q ! nat (current_index q)))"
proof -
  let ?k = "nat (current_index q)"
  let ?q1 = "q\<lparr>answers := (answers q)[?k := (answers q ! ?k)
       \<lparr>value_opt := Some v, is_correct := Some (v = is_authentic (biases q ! ?k))\<rparr>]\<rparr>"
  let ?s1 = "(fst (get_state e s))\<lparr>quiz := Some ?q1, revealed := Some True\<rparr>"
  let ?q2 = "?q1\<lparr>answers := (answers ?q1)[?k := (answers ?q1 ! ?k)
       \<lparr>value_opt := Some w, is_correct := Some (w = is_authentic (biases ?q1 ! ?k))\<rparr>]\<rparr>"
  let ?s2 = "(fst (get_state e' ?s1))\<lparr>quiz := Some ?q2, revealed := Some True\<rparr>"
  have k: "?k < length (answers q)" using assms(3,4,5) by simp
  have first: "set_answer e v s = (?s1, None)"
    using assms by (rule set_answer_in_bounds)
  have second: "set_answer e' w ?s1 = (?s2, None)"
    using set_answer_in_bounds [of ?s1 ?q1 e' w] assms
    by (simp add: get_state_submitted_iff)
  have a1: "value_opt (answers ?q1 ! ?k) = Some v \<and>
    is_correct (answers ?q1 ! ?k) = Some (v = is_authentic (biases q ! ?k))"
    using k by simp
  have a2: "value_opt (answers ?q2 ! ?k) = Some w \<and>
    is_correct (answers ?q2 ! ?k) = Some (w = is_authentic (biases q ! ?k))"
    using k by simp
  have r: "quiz ?s1 = Some ?q1 \<and> revealed ?s1 = Some True \<and>
           quiz ?s2 = Some ?q2 \<and> revealed ?s2 = Some True"
    by simp
  from first second a1 a2 r show ?thesis by blast
qed

theorem set_answer_last_write_wins_witness:
  "quiz example_session = Some example_quiz \<and> submitted example_session \<noteq> Some True \<and>
   0 \<le> current_index example_quiz \<and>
   current_index example_quiz < int (length (biases example_quiz)) \<and>
   length (answers example_quiz) = length (biases example_quiz) \<and>
   (\<exists>s1 q1 s2 q2.
     set_answer example_env True example_session = (s1, None) \<and> quiz s1 = Some q1 \<and>
     revealed s1 = Some True \<and>
     value_opt (answers q1 ! 0) = Some True \<and> is_correct (answers q1 ! 0) = Some True \<and>
     set_answer example_env False s1 = (s2, None) \<and> quiz s2 = Some q2 \<and>
     revealed s2 = Some True \<and>
     value_opt (answers q2 ! 0) = Some False \<and> is_correct (answers q2 ! 0) = Some False)"
proof -
  have h1: "quiz example_session = Some example_quiz" by (simp add: example_session_simps)
  have h2: "submitted example_session \<noteq> Some True" by (simp add: example_session_simps)
  have h3: "0 \<le> current_index example_quiz" by (simp add: example_quiz_simps)
  have h4: "current_index example_quiz < int (length (biases example_quiz))"
    by (simp add: example_quiz_simps)
  have h5: "length (answers example_quiz) = length (biases example_quiz)"
    by (simp add: example_quiz_simps)
  have a: "is_authentic (biases example_quiz ! 0)"
    by (simp add: example_quiz_def example_biases_def)
  from set_answer_last_write_wins [OF h1 h2 h3 h4 h5, of example_env True example_env False]
    h1 h2 h3 h4 h5 a
  show ?thesis by (simp add: example_quiz_simps)
qed

section \<open>Navigation\<close>

text \<open>
  Claim C3. On an unsubmitted quiz, \<^verbatim>\<open>go_prev\<close> moves the cursor to
  \<open>max 0 (current_index - 1)\<close> and \<^verbatim>\<open>go_next\<close> to \<open>min (N - 1) (current_index + 1)\<close>; both
  leave the rest of the quiz as it was and set \<open>revealed\<close> to whether the answer at the
  new cursor has a value.
\<close>

theorem navigation_moves_cursor:
  assumes "quiz s = Some q" and "submitted s \<noteq> Some True"
    and "0 \<le> current_index q" and "current_index q < int (length (biases q))"
    and "length (answers q) = length (biases q)"
  shows "(\<exists>s1. go_prev e s = (s1, None) \<and>
            quiz s1 = Some (q\<lparr>current_index := max 0 (current_index q - 1)\<rparr>) \<and>
            revealed s1 =
              Some (value_opt (answers q ! nat (max 0 (current_index q - 1))) \<noteq> None)) \<and>
         (\<exists>s2. go_next e s = (s2, None) \<and>
            quiz s2 = Some (q\<lparr>current_index :=
                          min (int (length (biases q)) - 1) (current_index q + 1)\<rparr>) \<and>
            revealed s2 =
              Some (value_opt (answers q !
                      nat (min (int (length (biases q)) - 1) (current_index q + 1))) \<noteq> None))"
proof -
  have "current_index q < int (length (answers q))" using assms(4,5) by simp
  with assms(1,2,3) have p: "go_prev e s =
     ((fst (get_state e s))
        \<lparr>quiz := Some (q\<lparr>current_index := max 0 (current_index q - 1)\<rparr>),
         revealed := Some (value_opt (answers q ! nat (max 0 (current_index q - 1))) \<noteq> None)\<rparr>,
      None)"
    by (rule go_prev_in_bounds)
  note n = go_next_in_bounds [OF assms, of e]
  show ?thesis unfolding p n by simp
qed

theorem navigation_moves_cursor_witness:
  "quiz example_session = Some example_quiz \<and> submitted example_session \<noteq> Some True \<and>
   0 \<le> current_index example_quiz \<and>
   current_index example_quiz < int (length (biases example_quiz)) \<and>
   length (answers example_quiz) = length (biases example_quiz) \<and>
   (\<exists>s1. go_prev example_env example_session = (s1, None) \<and>
      quiz s1 = Some example_quiz \<and> revealed s1 = Some False) \<and>
   (\<exists>s2. go_next example_env example_session = (s2, None) \<and>
      quiz s2 = Some (example_quiz\<lparr>current_index := 1\<rparr>) \<and> revealed s2 = Some False)"
proof -
  have h1: "quiz example_session = Some example_quiz" by (simp add: example_session_simps)
  have h2: "submitted example_session \<noteq> Some True" by (simp add: example_session_simps)
  have h3: "0 \<le> current_index example_quiz" by (simp add: example_quiz_simps)
  have h4: "current_index example_quiz < int (length (biases example_quiz))"
    by (simp add: example_quiz_simps)
  have h5: "length (answers example_quiz) = length (biases example_quiz)"
    by (simp add: example_quiz_simps)
  have a: "value_opt (answers example_quiz ! 0) = None"
    "value_opt (answers example_quiz ! 1) = None"
    "example_quiz\<lparr>current_index := 0\<rparr> = example_quiz"
    by (simp_all add: example_quiz_def new_answer_def)
  from navigation_moves_cursor [OF h1 h2 h3 h4 h5, of example_env] h1 h2 h3 h4 h5 a
  show ?thesis by (simp add: example_quiz_simps)
qed

text \<open>
  Claim C4. From a cursor \<open>i < N - 1\<close> of an unsubmitted quiz, \<^verbatim>\<open>go_next\<close> followed by
  \<^verbatim>\<open>go_prev\<close> gives back the quiz with its cursor at \<open>i\<close>, and \<open>revealed\<close> then tells
  whether the answer at \<open>i\<close> has a value.
\<close>

theorem next_then_prev_round_trip:
  assumes "quiz s = Some q" and "submitted s \<noteq> Some True"
    and "0 \<le> current_index q" and "current_index q < int (length (biases q)) - 1"
    and "length (answers q) = length (biases q)"
  shows "\<exists>s1 s2. go_next e s = (s1, None) \<and> go_prev e' s1 = (s2, None) \<and>
            quiz s2 = Some q \<and>
            revealed s2 = Some (value_opt (answers q ! nat (current_index q)) \<noteq> None)"
proof -
  let ?q1 = "q\<lparr>current_index := current_index q + 1\<rparr>"
  let ?s1 = "(fst (get_state e s))\<lparr>quiz := Some ?q1,
      revealed := Some (value_opt (answers q ! nat (current_index q + 1)) \<noteq> None)\<rparr>"
  let ?s2 = "(fst (get_state e' ?s1))\<lparr>quiz := Some q,
      revealed := Some (value_opt (answers q ! nat (current_index q)) \<noteq> None)\<rparr>"
  have lt: "current_index q < int (length (biases q))" using assms(4) by simp
  have m: "min (int (length (biases q)) - 1) (current_index q + 1) = current_index q + 1"
    using assms(4) by simp
  have n: "go_next e s = (?s1, None)"
    using go_next_in_bounds [OF assms(1,2,3) lt assms(5), of e] by (simp only: m)
  have sub: "submitted ?s1 \<noteq> Some True"
    using assms(2) by (simp add: get_state_submitted_iff)
  have "go_prev e' ?s1 =
     ((fst (get_state e' ?s1))
        \<lparr>quiz := Some (?q1\<lparr>current_index := max 0 (current_index ?q1 - 1)\<rparr>),
         revealed := Some (value_opt (answers ?q1 ! nat (max 0 (current_index ?q1 - 1))) \<noteq> None)\<rparr>,
      None)"
    by (rule go_prev_in_bounds) (use sub assms(3,4,5) in simp_all)
  moreover have "max 0 (current_index ?q1 - 1) = current_index q" using assms(3) by simp
  ultimately have p: "go_prev e' ?s1 = (?s2, None)" by simp
  have "quiz ?s2 = Some q \<and>
        revealed ?s2 = Some (value_opt (answers q ! nat (current_index q)) \<noteq> None)"
    by simp
  with n p show ?thesis by blast
qed

theorem next_then_prev_round_trip_witness:
  "quiz example_session = Some example_quiz \<and> submitted example_session \<noteq> Some True \<and>
   0 \<le> current_index example_quiz \<and>
   current_index example_quiz < int (length (biases example_quiz)) - 1 \<and>
   length (answers example_quiz) = length (biases example_quiz) \<and>
   (\<exists>s1 s2. go_next example_env example_session = (s1, None) \<and>
      go_prev example_env s1 = (s2, None) \<and>
      quiz s2 = Some example_quiz \<and> revealed s2 = Some False)"
proof -
  have h1: "quiz example_session = Some example_quiz" by (simp add: example_session_simps)
  have h2: "submitted example_session \<noteq> Some True" by (simp add: example_session_simps)
  have h3: "0 \<le> current_index example_quiz" by (simp add: example_quiz_simps)
  have h4: "current_index example_quiz < int (length (biases example_quiz)) - 1"
    by (simp add: example_quiz_simps)
  have h5: "length (answers example_quiz) = length (biases example_quiz)"
    by (simp add: example_quiz_simps)
  have a: "value_opt (answers example_quiz ! 0) = None"
    by (simp add: example_quiz_def new_answer_def)
  from next_then_prev_round_trip [OF h1 h2 h3 h4 h5, of example_env example_env]
    h1 h2 h3 h4 h5 a
  show ?thesis by (simp add: example_quiz_simps)
qed

section \<open>After submission\<close>

text \<open>
  Claim C6. Once \<open>submitted\<close> is true, \<^verbatim>\<open>set_answer\<close>, \<^verbatim>\<open>go_prev\<close> and \<^verbatim>\<open>go_next\<close>
  raise nothing and return the session state unchanged: claims, answers, cursor,
  \<open>revealed\<close> and \<open>submitted\<close>.
\<close>

theorem submitted_quiz_is_frozen:
  assumes "quiz s = Some q" and "revealed s = Some r" and "submitted s = Some True"
  shows "set_answer e v s = (s, None) \<and> go_prev e s = (s, None) \<and> go_next e s = (s, None)"
  using submitted_transitions_noop [OF assms] by simp

theorem submitted_quiz_is_frozen_witness:
  "quiz (submit example_session) = Some example_quiz \<and>
   revealed (submit example_session) = Some False \<and>
   submitted (submit example_session) = Some True \<and>
   set_answer example_env True (submit example_session) = (submit example_session, None) \<and>
   go_prev example_env (submit example_session) = (submit example_session, None) \<and>
   go_next example_env (submit example_session) = (submit example_session, None)"
proof -
  have h1: "quiz (submit example_session) = Some example_quiz"
    by (simp add: submit_def example_session_simps)
  have h2: "revealed (submit example_session) = Some False"
    by (simp add: submit_def example_session_simps)
  have h3: "submitted (submit example_session) = Some True"
    by (simp add: submit_def)
  from submitted_quiz_is_frozen [OF h1 h2 h3, of example_env True] h1 h2 h3
  show ?thesis by simp
qed

section \<open>The score\<close>

lemma count_correct_consistent:
  "list_all2 answer_consistent bs as \<Longrightarrow>
   length (filter (\<lambda>a. is_correct a = Some True) as) =
   length (filter (\<lambda>(b, a). value_opt a = Some (is_authentic b)) (zip bs as))"
proof (induction rule: list_all2_induct)
  case Nil
  then show ?case by simp
next
  case (Cons b bs a as)
  from Cons.hyps(1) have "is_correct a = Some True \<longleftrightarrow> value_opt a = Some (is_authentic b)"
    by (auto simp: answer_consistent_def split: option.splits)
  with Cons.IH show ?case by simp
qed

lemma count_all_matching:
  "list_all2 (\<lambda>b a. value_opt a = Some (is_authentic b)) bs as \<Longrightarrow>
   length (filter (\<lambda>(b, a). value_opt a = Some (is_authentic b)) (zip bs as)) = length bs"
  by (induction rule: list_all2_induct) simp_all

lemma count_correct_le_answered:
  "list_all2 answer_consistent bs as \<Longrightarrow>
   length (filter (\<lambda>a. is_correct a = Some True) as) \<le>
   length (filter (\<lambda>a. value_opt a \<noteq> None) as)"
proof (induction rule: list_all2_induct)
  case Nil
  then show ?case by simp
next
  case (Cons b bs a as)
  from Cons.hyps(1) have "is_correct a = Some True \<Longrightarrow> value_opt a \<noteq> None"
    by (auto simp: answer_consistent_def split: option.splits)
  with Cons.IH show ?case by auto
qed

text \<open>
  Claim C5. \<^verbatim>\<open>show_results\<close> computes \<open>(correct, total)\<close> with \<open>total\<close> the number of
  biases and \<open>correct\<close> the number of answers whose \<open>is_correct\<close> is true. When the
  answers agree with their biases, \<open>correct\<close> counts exactly the answers whose value is
  set and equals \<open>is_authentic\<close>, so an answer without a value is not counted; when
  every answer matches its bias the score is \<open>(N, N)\<close>; and the run of the example
  (biases authentic, fake, authentic; answers authentic, authentic, fake) scores
  \<open>(1, 3)\<close>. The function returns the pair and has no session or quiz to hand back.
\<close>

theorem show_results_score:
  "show_results q =
     (int (length (filter (\<lambda>a. is_correct a = Some True) (answers q))),
      int (length (biases q))) \<and>
   (list_all2 answer_consistent (biases q) (answers q) \<longrightarrow>
      fst (show_results q) =
        int (length (filter (\<lambda>(b, a). value_opt a = Some (is_authentic b))
                       (zip (biases q) (answers q)))) \<and>
      fst (show_results q) \<le> int (length (filter (\<lambda>a. value_opt a \<noteq> None) (answers q)))) \<and>
   (list_all2 answer_consistent (biases q) (answers q) \<and>
    list_all2 (\<lambda>b a. value_opt a = Some (is_authentic b)) (biases q) (answers q) \<longrightarrow>
      show_results q = (int (length (biases q)), int (length (biases q)))) \<and>
   (quiz example_run = Some example_final \<and>
    map is_authentic (biases example_final) = [True, False, True] \<and>
    map value_opt (answers example_final) = [Some True, Some True, Some False] \<and>
    map is_correct (answers example_final) = [Some True, Some False, Some False] \<and>
    show_results example_final = (1, 3))"
proof -
  have ex: "map is_authentic (biases example_final) = [True, False, True] \<and>
    map value_opt (answers example_final) = [Some True, Some True, Some False] \<and>
    map is_correct (answers example_final) = [Some True, Some False, Some False] \<and>
    show_results example_final = (1, 3)"
    by (simp add: example_final_def example_quiz_def example_biases_def
        show_results_def)
  have shape: "show_results q =
     (int (length (filter (\<lambda>a. is_correct a = Some True) (answers q))),
      int (length (biases q)))"
    by (simp add: show_results_def)
  have counted: "fst (show_results q) =
        int (length (filter (\<lambda>(b, a). value_opt a = Some (is_authentic b))
                       (zip (biases q) (answers q)))) \<and>
      fst (show_results q) \<le> int (length (filter (\<lambda>a. value_opt a \<noteq> None) (answers q)))"
    if "list_all2 answer_consistent (biases q) (answers q)"
    using count_correct_consistent [OF that] count_correct_le_answered [OF that]
    by (simp add: shape)
  have full: "show_results q = (int (length (biases q)), int (length (biases q)))"
    if "list_all2 answer_consistent (biases q) (answers q)"
      and "list_all2 (\<lambda>b a. value_opt a = Some (is_authentic b)) (biases q) (answers q)"
    using count_correct_consistent [OF that(1)] count_all_matching [OF that(2)]
    by (simp add: shape)
  have run: "quiz example_run = Some example_final"
    by (simp add: example_run_eq)
  from shape counted full run ex show ?thesis by blast
qed

theorem show_results_score_witness:
  "list_all2 answer_consistent (biases example_all_correct) (answers example_all_correct) \<and>
   list_all2 (\<lambda>b a. value_opt a = Some (is_authentic b))
     (biases example_all_correct) (answers example_all_correct) \<and>
   length (biases example_all_correct) = 3 \<and>
   show_results example_all_correct = (3, 3)"
proof -
  have h1: "list_all2 answer_consistent (biases example_all_correct)
      (answers example_all_correct)"
    by (simp add: example_all_correct_def example_quiz_def example_biases_def
        answer_consistent_def)
  have h2: "list_all2 (\<lambda>b a. value_opt a = Some (is_authentic b))
      (biases example_all_correct) (answers example_all_correct)"
    by (simp add: example_all_correct_def example_quiz_def example_biases_def)
  have n: "length (biases example_all_correct) = 3"
    by (simp add: example_all_correct_def example_quiz_def example_biases_def)
  from show_results_score [of example_all_correct] h1 h2
  have "show_results example_all_correct =
      (int (length (biases example_all_correct)), int (length (biases example_all_correct)))"
    by blast
  with h1 h2 n show ?thesis by simp
qed

section \<open>What answering leaves alone\<close>

lemma set_answer_guarded:
  assumes "quiz s = Some q" and "revealed s = Some r" and "submitted s = Some b"
    and "b \<or> int (length (biases q)) \<le> current_index q"
  shows "set_answer e v s = (s, None)"
  using assms get_state_ready [OF assms(1,2,3), of e]
  by (auto simp: set_answer_def Let_def)

lemma set_answer_index_error:
  assumes "quiz s = Some q" and "revealed s = Some r" and "submitted s = Some False"
    and "current_index q < int (length (biases q))"
    and "py_index (biases q) (current_index q) = None \<or>
         py_index (answers q) (current_index q) = None"
  shows "set_answer e v s = (s, Some IndexError)"
  using assms get_state_ready [OF assms(1,2,3), of e]
  by (auto simp: set_answer_def Let_def split: option.splits)

lemma set_answer_writes:
  assumes "quiz s = Some q" and "revealed s = Some r" and "submitted s = Some False"
    and "current_index q < int (length (biases q))"
    and "py_index (biases q) (current_index q) = Some pb"
    and "py_index (answers q) (current_index q) = Some pa"
  shows "set_answer e v s =
     (s\<lparr>quiz := Some (q\<lparr>answers := (answers q)[pa :=
             (answers q ! pa)
               \<lparr>value_opt := Some v, is_correct := Some (v = is_authentic (biases q ! pb))\<rparr>]\<rparr>),
         revealed := Some True\<rparr>, None)"
  using assms get_state_ready [OF assms(1,2,3), of e]
  by (simp add: set_answer_def Let_def)

lemma py_index_negative_out:
  "i < - int (length xs) \<Longrightarrow> py_index xs i = None"
  by (simp add: py_index_def)

lemma py_index_nonneg: "0 \<le> i \<Longrightarrow> py_index xs i = Some j \<Longrightarrow> j = nat i"
  by (auto simp: py_index_def Let_def split: if_splits)

lemma set_answer_frame_cases:
  assumes "quiz s = Some q" and "revealed s = Some r" and "submitted s = Some b"
  shows "\<exists>s' q' err. set_answer e v s = (s', err) \<and> quiz s' = Some q' \<and>
           biases q' = biases q \<and> current_index q' = current_index q \<and>
           submitted s' = submitted s \<and> length (answers q') = length (answers q) \<and>
           (\<forall>j. py_index (answers q) (current_index q) \<noteq> Some j \<longrightarrow>
                answers q' ! j = answers q ! j)"
proof (cases "b \<or> int (length (biases q)) \<le> current_index q")
  case True
  with assms have "set_answer e v s = (s, None)" by (rule set_answer_guarded)
  with assms(1) show ?thesis by simp
next
  case False
  then have b: "submitted s = Some False" and lt: "current_index q < int (length (biases q))"
    using assms(3) by simp_all
  show ?thesis
  proof (cases "py_index (biases q) (current_index q) = None \<or>
         py_index (answers q) (current_index q) = None")
    case True
    note set_answer_index_error [OF assms(1,2) b lt True, of e v]
    with assms(1) show ?thesis by simp
  next
    case False
    then obtain pb pa where "py_index (biases q) (current_index q) = Some pb"
      and pa: "py_index (answers q) (current_index q) = Some pa"
      by auto
    note set_answer_writes [OF assms(1,2) b lt this, of e v]
    then show ?thesis using pa by simp
  qed
qed

text \<open>
  Claim C9. On a session that holds a quiz and both flags, \<^verbatim>\<open>set_answer\<close> changes at
  most the answer that \<^verbatim>\<open>q.answers[q.current_index]\<close> reads and \<open>revealed\<close>: the
  biases, the cursor, \<open>submitted\<close> and the number of answers stay as they were, and so
  does the answer at every other position, which for a cursor that is not negative is
  every index \<open>j\<close> different from the cursor. When \<open>submitted\<close> is true, the list of
  biases is empty, or the cursor is out of the bounds of the list, the session is
  unchanged; when \<open>submitted\<close> is true or the cursor is at or beyond the length, the
  call also raises nothing.
\<close>

theorem set_answer_frame:
  assumes "quiz s = Some q" and "revealed s = Some r" and "submitted s = Some b"
  shows "(\<exists>s' q' err. set_answer e v s = (s', err) \<and> quiz s' = Some q' \<and>
           biases q' = biases q \<and> current_index q' = current_index q \<and>
           submitted s' = submitted s \<and> length (answers q') = length (answers q) \<and>
           (\<forall>j. py_index (answers q) (current_index q) \<noteq> Some j \<longrightarrow>
                answers q' ! j = answers q ! j) \<and>
           (0 \<le> current_index q \<longrightarrow>
             (\<forall>j. j \<noteq> nat (current_index q) \<longrightarrow> answers q' ! j = answers q ! j))) \<and>
         (b \<or> biases q = [] \<or> int (length (biases q)) \<le> current_index q \<or>
          current_index q < - int (length (biases q)) \<longrightarrow>
            fst (set_answer e v s) = s) \<and>
         (b \<or> int (length (biases q)) \<le> current_index q \<longrightarrow>
            set_answer e v s = (s, None))"
proof -
  from set_answer_frame_cases [OF assms, of e v]
  obtain s' q' err where f: "set_answer e v s = (s', err)" "quiz s' = Some q'"
    "biases q' = biases q" "current_index q' = current_index q"
    "submitted s' = submitted s" "length (answers q') = length (answers q)"
    "\<forall>j. py_index (answers q) (current_index q) \<noteq> Some j \<longrightarrow> answers q' ! j = answers q ! j"
    by blast
  have nonneg: "\<forall>j. j \<noteq> nat (current_index q) \<longrightarrow> answers q' ! j = answers q ! j"
    if "0 \<le> current_index q"
    using f(7) py_index_nonneg [OF that] by blast
  have guarded: "set_answer e v s = (s, None)"
    if "b \<or> int (length (biases q)) \<le> current_index q"
    using assms that by (rule set_answer_guarded)
  have unchanged: "fst (set_answer e v s) = s"
    if c: "b \<or> biases q = [] \<or> int (length (biases q)) \<le> current_index q \<or>
          current_index q < - int (length (biases q))"
  proof (cases "b \<or> int (length (biases q)) \<le> current_index q")
    case True
    then show ?thesis using guarded by simp
  next
    case False
    then have sub: "submitted s = Some False"
      and lt: "current_index q < int (length (biases q))"
      using assms(3) by simp_all
    from c False lt have "current_index q < - int (length (biases q))" by auto
    then have "py_index (biases q) (current_index q) = None"
      by (rule py_index_negative_out)
    then have "set_answer e v s = (s, Some IndexError)"
      using set_answer_index_error [OF assms(1,2) sub lt] by simp
    then show ?thesis by simp
  qed
  from f nonneg guarded unchanged show ?thesis by blast
qed

theorem set_answer_frame_witness:
  "quiz example_session = Some example_quiz \<and> revealed example_session = Some False \<and>
   submitted example_session = Some False \<and> current_index example_quiz = 0 \<and>
   (\<exists>s' q' err. set_answer example_env True example_session = (s', err) \<and>
      quiz s' = Some q' \<and> biases q' = biases example_quiz \<and> current_index q' = 0 \<and>
      submitted s' = Some False \<and> length (answers q') = 3 \<and>
      answers q' ! 1 = answers example_quiz ! 1 \<and>
      answers q' ! 2 = answers example_quiz ! 2) \<and>
   submitted (submit example_session) = Some True \<and>
   set_answer example_env True (submit example_session) = (submit example_session, None)"
proof -
  have h: "quiz example_session = Some example_quiz" "revealed example_session = Some False"
    "submitted example_session = Some False"
    by (simp_all add: example_session_simps)
  have z: "current_index example_quiz = 0" by (simp add: example_quiz_simps)
  have g: "quiz (submit example_session) = Some example_quiz"
    "revealed (submit example_session) = Some False"
    "submitted (submit example_session) = Some True"
    by (simp_all add: submit_def example_session_simps)
  from set_answer_frame [OF h, of example_env True]
  obtain s' q' err where f: "set_answer example_env True example_session = (s', err)"
    "quiz s' = Some q'" "biases q' = biases example_quiz"
    "current_index q' = current_index example_quiz"
    "submitted s' = submitted example_session"
    "length (answers q') = length (answers example_quiz)"
    "0 \<le> current_index example_quiz \<longrightarrow>
      (\<forall>j. j \<noteq> nat (current_index example_quiz) \<longrightarrow> answers q' ! j = answers example_quiz ! j)"
    by blast
  from f(7) z have "answers q' ! 1 = answers example_quiz ! 1"
    "answers q' ! 2 = answers example_quiz ! 2"
    by simp_all
  with f have 1: "\<exists>s' q' err. set_answer example_env True example_session = (s', err) \<and>
      quiz s' = Some q' \<and> biases q' = biases example_quiz \<and> current_index q' = 0 \<and>
      submitted s' = Some False \<and> length (answers q') = 3 \<and>
      answers q' ! 1 = answers example_quiz ! 1 \<and>
      answers q' ! 2 = answers example_quiz ! 2"
    by (simp add: example_session_simps example_quiz_simps)
  from set_answer_frame [OF g, of example_env True]
  have 2: "set_answer example_env True (submit example_session) = (submit example_session, None)"
    by simp
  from h z g 1 2 show ?thesis by simp
qed

section \<open>Navigation at the two ends\<close>

lemma go_prev_at_first:
  assumes "quiz s = Some q" and "revealed s = Some r" and "submitted s = Some False"
    and "answers q \<noteq> []" and "current_index q = 0"
  shows "go_prev e s = (s\<lparr>revealed := Some (value_opt (answers q ! 0) \<noteq> None)\<rparr>, None)"
proof -
  have "py_index (answers q) 0 = Some 0" using assms(4) by (simp add: py_index_def)
  then show ?thesis
    using assms(1,3,5) get_state_ready [OF assms(1,2,3), of e]
    by (simp add: go_prev_def Let_def)
qed

lemma go_next_at_last:
  assumes "quiz s = Some q" and "revealed s = Some r" and "submitted s = Some False"
    and "length (answers q) = length (biases q)" and "biases q \<noteq> []"
    and "current_index q = int (length (biases q)) - 1"
  shows "go_next e s =
     (s\<lparr>revealed := Some (value_opt (answers q ! (length (biases q) - 1)) \<noteq> None)\<rparr>, None)"
proof -
  have n: "nat (int (length (biases q)) - 1) = length (biases q) - 1" by simp
  have "py_index (answers q) (int (length (biases q)) - 1) = Some (length (biases q) - 1)"
    using assms(4,5) py_index_in_range [of "int (length (biases q)) - 1" "answers q"]
    by (simp add: n)
  then show ?thesis
    using assms(1,3,6) get_state_ready [OF assms(1,2,3), of e]
    by (simp add: go_next_def Let_def)
qed

subsection \<open>In a reachable state \<open>revealed\<close> is in step\<close>

text \<open>
  Every transition that moves the cursor or writes an answer assigns \<open>revealed\<close> from
  the answer under the cursor, and a new quiz starts unanswered with \<open>revealed\<close> false.
\<close>

lemma fresh_quiz_in_step:
  assumes "create_quiz e = Inr q" and "quiz s = Some q" and "revealed s = Some False"
  shows "revealed_in_step s"
proof -
  have "value_opt (answers q ! p) = None" if "py_index (answers q) (current_index q) = Some p" for p
  proof -
    from that have "p < length (answers q)" by (rule py_index_less)
    then show ?thesis using create_quiz_fresh(1) [OF assms(1)] by (simp add: new_answer_def)
  qed
  then show ?thesis using assms(2,3) by (auto simp: revealed_in_step_def split: option.splits)
qed

lemma revealed_in_step_get_state:
  assumes "revealed_in_step s"
  shows "revealed_in_step (fst (get_state e s))"
proof (cases "quiz s")
  case (Some q)
  then show ?thesis using assms
    by (auto simp: get_state_quiz_present revealed_in_step_def split: option.splits)
next
  case None
  then have r: "revealed s = Some False \<or> revealed s = None"
    using assms by (simp add: revealed_in_step_def)
  show ?thesis
  proof (cases "create_quiz e")
    case (Inl err)
    with None r assms show ?thesis
      by (auto simp: get_state_def Let_def revealed_in_step_def)
  next
    case (Inr q)
    have "quiz (fst (get_state e s)) = Some q" "revealed (fst (get_state e s)) = Some False"
      using None Inr r by (auto simp: get_state_def Let_def)
    with Inr show ?thesis by (rule fresh_quiz_in_step)
  qed
qed

lemma revealed_in_step_set_answer:
  assumes "revealed_in_step s"
  shows "revealed_in_step (fst (set_answer e v s))"
proof -
  obtain st r where g: "get_state e s = (st, r)" by (cases "get_state e s")
  have st: "revealed_in_step st" using revealed_in_step_get_state [OF assms, of e] g by simp
  have "revealed_in_step
     (st\<lparr>quiz := Some (q\<lparr>answers := (answers q)[pa := a\<lparr>value_opt := Some v, is_correct := c\<rparr>]\<rparr>),
        revealed := Some True\<rparr>)"
    if "py_index (answers q) (current_index q) = Some pa" for q pa a c
  proof -
    from that have "pa < length (answers q)" by (rule py_index_less)
    moreover from that
    have "py_index ((answers q)[pa := a\<lparr>value_opt := Some v, is_correct := c\<rparr>]) (current_index q)
        = Some pa"
      by (simp add: py_index_def)
    ultimately show ?thesis by (simp add: revealed_in_step_def)
  qed
  with st g show ?thesis
    by (auto simp: set_answer_def Let_def split: option.splits)
qed

lemma revealed_in_step_go_prev:
  assumes "revealed_in_step s"
  shows "revealed_in_step (fst (go_prev e s))"
  using revealed_in_step_get_state [OF assms, of e]
  by (auto simp: go_prev_def Let_def revealed_in_step_def split: option.splits prod.splits)

lemma revealed_in_step_go_next:
  assumes "revealed_in_step s"
  shows "revealed_in_step (fst (go_next e s))"
  using revealed_in_step_get_state [OF assms, of e]
  by (auto simp: go_next_def Let_def revealed_in_step_def split: option.splits prod.splits)

lemma revealed_in_step_submit: "revealed_in_step s \<Longrightarrow> revealed_in_step (submit s)"
  by (auto simp: submit_def revealed_in_step_def split: option.splits)

lemma revealed_in_step_restart:
  assumes "revealed_in_step s"
  shows "revealed_in_step (fst (restart_quiz e s))"
proof (cases "create_quiz e")
  case (Inl err)
  then show ?thesis using assms by (simp add: restart_quiz_def)
next
  case (Inr q)
  have "revealed_in_step (s\<lparr>quiz := Some q, revealed := Some False, submitted := Some False\<rparr>)"
    by (rule fresh_quiz_in_step [OF Inr]) simp_all
  then show ?thesis using Inr by (simp add: restart_quiz_def)
qed

lemma reachable_revealed_in_step: "reachable s \<Longrightarrow> revealed_in_step s"
proof (induction rule: reachable.induct)
  case (first_access e)
  have "revealed_in_step empty_session" by (simp add: revealed_in_step_def empty_session_def)
  then show ?case by (rule revealed_in_step_get_state)
qed (simp_all add: revealed_in_step_get_state revealed_in_step_set_answer
      revealed_in_step_go_prev revealed_in_step_go_next revealed_in_step_submit
      revealed_in_step_restart)

lemma reachable_boundary_unchanged:
  assumes "reachable s" and "quiz s = Some q"
  shows "(current_index q = 0 \<longrightarrow> fst (go_prev e s) = s) \<and>
         (current_index q = int (length (biases q)) - 1 \<longrightarrow> fst (go_next e s) = s)"
proof -
  from reachable_flags_set [OF assms] obtain r b
    where r: "revealed s = Some r" and b: "submitted s = Some b" by blast
  from assms have len: "length (answers q) = length (biases q)"
    using reachable_inv [OF assms(1)]
    by (auto simp: session_inv_def dest: list_all2_lengthD)
  from assms have c: "0 \<le> current_index q"
    using reachable_cursor_inv [OF assms(1)] by (simp add: cursor_inv_def)
  from assms(1) have step: "revealed_in_step s" by (rule reachable_revealed_in_step)
  note g = get_state_ready [OF assms(2) r b, of e]
  show ?thesis
  proof (cases b)
    case True
    with submitted_transitions_noop(2,3) [OF assms(2) r, of e] b show ?thesis by simp
  next
    case False
    with b have sub: "submitted s = Some False" by simp
    have p: "fst (go_prev e s) = s" if z: "current_index q = 0"
    proof (cases "answers q = []")
      case True
      then have "py_index (answers q) (current_index q) = None" by (simp add: py_index_def)
      then show ?thesis using g assms(2) sub z by (simp add: go_prev_def Let_def)
    next
      case ne: False
      then have "py_index (answers q) (current_index q) = Some 0"
        using z by (simp add: py_index_def)
      with step assms(2) have rv: "revealed s = Some (value_opt (answers q ! 0) \<noteq> None)"
        by (simp add: revealed_in_step_def)
      from go_prev_at_first [OF assms(2) rv sub ne z, of e] rv show ?thesis by simp
    qed
    have n: "fst (go_next e s) = s" if l: "current_index q = int (length (biases q)) - 1"
    proof -
      from l c have ne: "biases q \<noteq> []" by auto
      have "nat (int (length (biases q)) - 1) = length (biases q) - 1" by simp
      then have "py_index (answers q) (current_index q) = Some (length (biases q) - 1)"
        using l len ne py_index_in_range [of "int (length (biases q)) - 1" "answers q"]
        by simp
      with step assms(2)
      have rv: "revealed s = Some (value_opt (answers q ! (length (biases q) - 1)) \<noteq> None)"
        by (simp add: revealed_in_step_def)
      from go_next_at_last [OF assms(2) rv sub len ne l, of e] rv show ?thesis by simp
    qed
    from p n show ?thesis by blast
  qed
qed

text \<open>
  Claim C10, as the code has it. At the first bias \<^verbatim>\<open>go_prev\<close>, and at the last bias
  \<^verbatim>\<open>go_next\<close>, leave the cursor where it is and assign \<open>revealed\<close> from the answer
  under the cursor. In every state the program reaches \<open>revealed\<close> already has that
  value, so there the call returns the session as it was and raises nothing.
\<close>

theorem boundary_navigation_recomputes_revealed:
  assumes "quiz s = Some q" and "revealed s = Some r" and "submitted s = Some False"
    and "length (answers q) = length (biases q)" and "biases q \<noteq> []"
  shows "(current_index q = 0 \<longrightarrow>
           go_prev e s = (s\<lparr>revealed := Some (value_opt (answers q ! 0) \<noteq> None)\<rparr>, None) \<and>
           (reachable s \<longrightarrow> go_prev e s = (s, None))) \<and>
         (current_index q = int (length (biases q)) - 1 \<longrightarrow>
           go_next e s =
             (s\<lparr>revealed := Some (value_opt (answers q ! (length (biases q) - 1)) \<noteq> None)\<rparr>,
              None) \<and>
           (reachable s \<longrightarrow> go_next e s = (s, None)))"
proof -
  from assms(4,5) have ne: "answers q \<noteq> []" by auto
  have p: "go_prev e s = (s\<lparr>revealed := Some (value_opt (answers q ! 0) \<noteq> None)\<rparr>, None)"
    if "current_index q = 0"
    using assms(1,2,3) ne that by (rule go_prev_at_first)
  have n: "go_next e s =
      (s\<lparr>revealed := Some (value_opt (answers q ! (length (biases q) - 1)) \<noteq> None)\<rparr>, None)"
    if "current_index q = int (length (biases q)) - 1"
    using assms that by (rule go_next_at_last)
  have rp: "go_prev e s = (s, None)" if "current_index q = 0" and "reachable s"
    using p [OF that(1)] reachable_boundary_unchanged [OF that(2) assms(1), of e] that(1)
    by simp
  have rn: "go_next e s = (s, None)"
    if "current_index q = int (length (biases q)) - 1" and "reachable s"
    using n [OF that(1)] reachable_boundary_unchanged [OF that(2) assms(1), of e] that(1)
    by simp
  from p n rp rn show ?thesis by blast
qed

theorem boundary_navigation_recomputes_revealed_witness:
  "reachable example_session \<and> quiz example_session = Some example_quiz \<and>
   revealed example_session = Some False \<and> submitted example_session = Some False \<and>
   length (answers example_quiz) = length (biases example_quiz) \<and>
   biases example_quiz \<noteq> [] \<and> current_index example_quiz = 0 \<and>
   go_prev example_env example_session = (example_session, None) \<and>
   reachable example_run \<and> quiz example_run = Some example_final \<and>
   revealed example_run = Some True \<and> submitted example_run = Some False \<and>
   length (answers example_final) = length (biases example_final) \<and>
   biases example_final \<noteq> [] \<and>
   current_index example_final = int (length (biases example_final)) - 1 \<and>
   go_next example_env example_run = (example_run, None)"
proof -
  have r1: "reachable example_session"
    using reachable.first_access [of example_env] by (simp add: get_state_example)
  have h: "quiz example_session = Some example_quiz" "revealed example_session = Some False"
    "submitted example_session = Some False"
    "length (answers example_quiz) = length (biases example_quiz)" "biases example_quiz \<noteq> []"
    by (simp_all add: example_session_simps example_quiz_simps)
      (simp add: example_quiz_def example_biases_def)
  have z: "current_index example_quiz = 0" by (simp add: example_quiz_simps)
  from boundary_navigation_recomputes_revealed [OF h, of example_env] z r1
  have 1: "go_prev example_env example_session = (example_session, None)" by blast
  have r2: "reachable example_run"
    unfolding example_run_def Let_def
    by (intro reachable.after_answer reachable.after_next r1)
  have g: "quiz example_run = Some example_final" "revealed example_run = Some True"
    "submitted example_run = Some False"
    "length (answers example_final) = length (biases example_final)"
    "biases example_final \<noteq> []"
    by (simp_all add: example_run_eq)
      (simp_all add: example_final_def example_quiz_def example_biases_def)
  have l: "current_index example_final = int (length (biases example_final)) - 1"
    by (simp add: example_final_def example_quiz_def example_biases_def)
  from boundary_navigation_recomputes_revealed [OF g, of example_env] l r2
  have 2: "go_next example_env example_run = (example_run, None)" by blast
  from r1 h z 1 r2 g l 2 show ?thesis by simp
qed

text \<open>
  Claim C10 as it was stated fails: no reachable session at either end of the list is
  changed by the call, so \<open>revealed\<close> never goes from true to false or from false to
  true while the cursor stays.
\<close>

theorem boundary_navigation_changes_nothing:
  "reachable example_session \<and> quiz example_session = Some example_quiz \<and>
   submitted example_session = Some False \<and> current_index example_quiz = 0 \<and>
   revealed (fst (go_prev example_env example_session)) = revealed example_session \<and>
   reachable example_run \<and> quiz example_run = Some example_final \<and>
   submitted example_run = Some False \<and>
   current_index example_final = int (length (biases example_final)) - 1 \<and>
   revealed (fst (go_next example_env example_run)) = revealed example_run \<and>
   \<not> (\<exists>e s q. reachable s \<and> quiz s = Some q \<and>
        ((current_index q = 0 \<and> revealed (fst (go_prev e s)) \<noteq> revealed s) \<or>
         (current_index q = int (length (biases q)) - 1 \<and>
          revealed (fst (go_next e s)) \<noteq> revealed s)))"
proof -
  have r1: "reachable example_session"
    using reachable.first_access [of example_env] by (simp add: get_state_example)
  have r2: "reachable example_run"
    unfolding example_run_def Let_def
    by (intro reachable.after_answer reachable.after_next r1)
  have h: "quiz example_session = Some example_quiz" "submitted example_session = Some False"
    "current_index example_quiz = 0"
    by (simp_all add: example_session_simps example_quiz_simps)
  have g: "quiz example_run = Some example_final" "submitted example_run = Some False"
    "current_index example_final = int (length (biases example_final)) - 1"
    by (simp_all add: example_run_eq)
      (simp add: example_final_def example_quiz_def example_biases_def)
  have p: "revealed (fst (go_prev example_env example_session)) = revealed example_session"
    using reachable_boundary_unchanged [OF r1 h(1), of example_env] h(3) by simp
  have n: "revealed (fst (go_next example_env example_run)) = revealed example_run"
    using reachable_boundary_unchanged [OF r2 g(1), of example_env] g(3) by simp
  have never: "\<not> (\<exists>e s q. reachable s \<and> quiz s = Some q \<and>
        ((current_index q = 0 \<and> revealed (fst (go_prev e s)) \<noteq> revealed s) \<or>
         (current_index q = int (length (biases q)) - 1 \<and>
          revealed (fst (go_next e s)) \<noteq> revealed s)))"
    using reachable_boundary_unchanged by fastforce
  from r1 r2 h g p n never show ?thesis by blast
qed

section \<open>Creation and restart\<close>





text \<open>
  Claim C8, as the code has it. From any session state, when \<^verbatim>\<open>create_quiz\<close> succeeds,
  \<^verbatim>\<open>restart_quiz\<close> stores the quiz it returns and nothing of the old one: cursor 0, as
  many answers as biases, every answer with neither a value nor an \<open>is_correct\<close>,
  \<open>revealed\<close> and \<open>submitted\<close> false. When \<^verbatim>\<open>create_quiz\<close> fails, the exception leaves
  \<^verbatim>\<open>restart_quiz\<close> before any assignment and the session is as it was.
\<close>

theorem restart_quiz_replaces_quiz:
  "(\<forall>q'. create_quiz e = Inr q' \<longrightarrow>
      restart_quiz e s =
        (\<lparr>quiz = Some q', revealed = Some False, submitted = Some False\<rparr>, None) \<and>
      current_index q' = 0 \<and>
      length (answers q') = length (biases q') \<and>
      (\<forall>a \<in> set (answers q'). value_opt a = None \<and> is_correct a = None)) \<and>
   (\<forall>err. create_quiz e = Inl err \<longrightarrow> restart_quiz e s = (s, Some err))"
proof -
  have created: "restart_quiz e s =
        (\<lparr>quiz = Some q', revealed = Some False, submitted = Some False\<rparr>, None) \<and>
      current_index q' = 0 \<and>
      length (answers q') = length (biases q') \<and>
      (\<forall>a \<in> set (answers q'). value_opt a = None \<and> is_correct a = None)"
    if "create_quiz e = Inr q'" for q'
    using create_quiz_unanswered [OF that] create_quiz_fresh(2) [OF that] that
    by (simp add: restart_quiz_def)
  have failed: "restart_quiz e s = (s, Some err)" if "create_quiz e = Inl err" for err
    using that by (simp add: restart_quiz_def)
  from created failed show ?thesis by blast
qed

theorem restart_quiz_replaces_quiz_witness:
  "create_quiz example_env = Inr example_quiz \<and>
   quiz (submit example_run) = Some example_final \<and>
   submitted (submit example_run) = Some True \<and>
   value_opt (answers example_final ! 0) = Some True \<and>
   restart_quiz example_env (submit example_run) =
     (\<lparr>quiz = Some example_quiz, revealed = Some False, submitted = Some False\<rparr>, None) \<and>
   current_index example_quiz = 0 \<and>
   length (answers example_quiz) = 3 \<and> length (biases example_quiz) = 3 \<and>
   value_opt (answers example_quiz ! 0) = None \<and>
   is_correct (answers example_quiz ! 0) = None \<and>
   create_quiz no_data_env = Inl StopException \<and>
   restart_quiz no_data_env (submit example_run) = (submit example_run, Some StopException)"
proof -
  have c: "create_quiz example_env = Inr example_quiz" by (rule create_quiz_example)
  have n: "create_quiz no_data_env = Inl StopException" by (rule create_quiz_no_data_env)
  from restart_quiz_replaces_quiz [of no_data_env "submit example_run"] n
  have x: "restart_quiz no_data_env (submit example_run) =
      (submit example_run, Some StopException)"
    by blast
  have o: "quiz (submit example_run) = Some example_final"
    "submitted (submit example_run) = Some True"
    "value_opt (answers example_final ! 0) = Some True"
    by (simp_all add: submit_def example_run_eq example_final_def)
  have m: "answers example_quiz ! 0 \<in> set (answers example_quiz)"
    by (simp add: example_quiz_def)
  from restart_quiz_replaces_quiz [of example_env "submit example_run"] c
  have r: "restart_quiz example_env (submit example_run) =
        (\<lparr>quiz = Some example_quiz, revealed = Some False, submitted = Some False\<rparr>, None) \<and>
      current_index example_quiz = 0 \<and>
      length (answers example_quiz) = length (biases example_quiz) \<and>
      (\<forall>a \<in> set (answers example_quiz). value_opt a = None \<and> is_correct a = None)"
    by blast
  with m have v: "value_opt (answers example_quiz ! 0) = None \<and>
      is_correct (answers example_quiz ! 0) = None"
    by blast
  have k: "length (biases example_quiz) = 3" by (simp add: example_quiz_simps)
  from c o r v k n x show ?thesis by simp
qed

text \<open>
  Claim C8 as it was stated fails when the data is gone at the time of the restart: the
  session reached by the run of the example and its submission keeps its quiz, its
  answers and \<open>submitted\<close>.
\<close>

theorem restart_quiz_without_data_counterexample:
  "reachable (submit example_run) \<and>
   quiz (submit example_run) = Some example_final \<and>
   submitted (submit example_run) = Some True \<and>
   map value_opt (answers example_final) = [Some True, Some True, Some False] \<and>
   current_index example_final = 2 \<and>
   create_quiz no_data_env = Inl StopException \<and>
   restart_quiz no_data_env (submit example_run) = (submit example_run, Some StopException) \<and>
   quiz (fst (restart_quiz no_data_env (submit example_run))) = Some example_final \<and>
   submitted (fst (restart_quiz no_data_env (submit example_run))) = Some True"
proof -
  have r0: "reachable example_session"
    using reachable.first_access [of example_env] by (simp add: get_state_example)
  have "reachable example_run"
    unfolding example_run_def Let_def
    by (intro reachable.after_answer reachable.after_next r0)
  then have r: "reachable (submit example_run)" by (rule reachable.after_submit)
  have o: "quiz (submit example_run) = Some example_final"
    "submitted (submit example_run) = Some True"
    "map value_opt (answers example_final) = [Some True, Some True, Some False]"
    "current_index example_final = 2"
    by (simp_all add: submit_def example_run_eq example_final_def)
  have n: "create_quiz no_data_env = Inl StopException" by (rule create_quiz_no_data_env)
  then have x: "restart_quiz no_data_env (submit example_run) =
      (submit example_run, Some StopException)"
    by (simp add: restart_quiz_def)
  from r o n x show ?thesis by simp
qed

end
